theory Spec2Isabelle
  imports Main
begin

section \<open>Python values\<close>

text \<open>
  The exceptions that the body of \<open>createMirroredDataset\<close> can raise. All of them are
  subclasses of \<open>Exception\<close>, so the handler at the end of the function catches each of
  them. Every filesystem error (\<open>FileNotFoundError\<close>, \<open>NotADirectoryError\<close>,
  \<open>IsADirectoryError\<close>, \<open>FileExistsError\<close>, \<open>shutil.SameFileError\<close>) is an \<open>OSError\<close>.
\<close>

datatype py_error = ValueError | TypeError | AttributeError | OSError

text \<open>
  Any object that is not one of the built-in kinds below (a float, a numpy array, ...):
  what \<open>str\<close> and \<open>repr\<close> return for it, its truth value (\<open>None\<close> when \<open>bool\<close> raises, as
  it does for a numpy array of several elements), and whether \<open>json\<close> can render it.
\<close>

record pyobject =
  obj_str :: string
  obj_repr :: string
  obj_truth :: "bool option"
  obj_json :: bool

text \<open>A dictionary is an association list with string keys; lookup takes the first match.\<close>

datatype pyval =
    PNone
  | PBool bool
  | PInt int
  | PStr string
  | PList "pyval list"
  | PDict "(string \<times> pyval) list"
  | PObject pyobject

type_synonym pydict = "(string \<times> pyval) list"

definition dict_get :: "pydict \<Rightarrow> string \<Rightarrow> pyval \<Rightarrow> pyval" where
  "dict_get d k dflt = (case map_of d k of Some v \<Rightarrow> v | None \<Rightarrow> dflt)"

text \<open>\<open>bool(v)\<close>, as \<open>not v\<close> needs it.\<close>

fun py_truth :: "pyval \<Rightarrow> py_error + bool" where
  "py_truth PNone = Inr False"
| "py_truth (PBool b) = Inr b"
| "py_truth (PInt i) = Inr (i \<noteq> 0)"
| "py_truth (PStr s) = Inr (s \<noteq> [])"
| "py_truth (PList xs) = Inr (xs \<noteq> [])"
| "py_truth (PDict kvs) = Inr (kvs \<noteq> [])"
| "py_truth (PObject ob) = (case obj_truth ob of None \<Rightarrow> Inl ValueError | Some b \<Rightarrow> Inr b)"

subsection \<open>Decimal digits\<close>

definition digit_char :: "nat \<Rightarrow> char" where
  "digit_char n = ''0123456789'' ! (n mod 10)"

definition is_digit :: "char \<Rightarrow> bool" where
  "is_digit c = (c \<in> set ''0123456789'')"

definition digit_val :: "char \<Rightarrow> nat" where
  "digit_val c = (of_char c :: nat) - 48"

fun show_nat :: "nat \<Rightarrow> string" where
  "show_nat n = (if n < 10 then [digit_char n] else show_nat (n div 10) @ [digit_char n])"

definition show_int :: "int \<Rightarrow> string" where
  "show_int i = (if i < 0 then CHR ''-'' # show_nat (nat (- i)) else show_nat (nat i))"

text \<open>A number written with at least \<open>w\<close> digits, zero-padded on the left.\<close>

definition zero_pad :: "nat \<Rightarrow> nat \<Rightarrow> string" where
  "zero_pad w n = replicate (w - length (show_nat n)) (CHR ''0'') @ show_nat n"

subsection \<open>\<open>str\<close> and \<open>repr\<close>\<close>

definition hex_digit :: "nat \<Rightarrow> char" where
  "hex_digit n = ''0123456789abcdef'' ! (n mod 16)"

text \<open>
  \<open>repr\<close> of a string, for ASCII text: single quotes unless the string has a single
  quote and no double quote; the quote and the backslash escaped, control characters
  written as escapes.
\<close>

definition repr_char :: "char \<Rightarrow> char \<Rightarrow> string" where
  "repr_char q c =
     (if c = q \<or> c = CHR 0x5C then [CHR 0x5C, c]
      else if c = CHR 0x09 then [CHR 0x5C, CHR ''t'']
      else if c = CHR 0x0A then [CHR 0x5C, CHR ''n'']
      else if c = CHR 0x0D then [CHR 0x5C, CHR ''r'']
      else if (of_char c :: nat) < 32 \<or> (of_char c :: nat) = 127
        then [CHR 0x5C, CHR ''x'', hex_digit (of_char c div 16), hex_digit (of_char c)]
      else [c])"

definition repr_str :: "string \<Rightarrow> string" where
  "repr_str s =
     (let q = (if CHR 0x27 \<in> set s \<and> CHR 0x22 \<notin> set s then CHR 0x22 else CHR 0x27)
      in q # concat (map (repr_char q) s) @ [q])"

fun join_with :: "string \<Rightarrow> string list \<Rightarrow> string" where
  "join_with sep [] = []"
| "join_with sep [x] = x"
| "join_with sep (x # y # ys) = x @ sep @ join_with sep (y # ys)"

fun py_repr :: "pyval \<Rightarrow> string" where
  "py_repr PNone = ''None''"
| "py_repr (PBool b) = (if b then ''True'' else ''False'')"
| "py_repr (PInt i) = show_int i"
| "py_repr (PStr s) = repr_str s"
| "py_repr (PList xs) = ''['' @ join_with '', '' (map py_repr xs) @ '']''"
| "py_repr (PDict kvs) =
     ''{'' @ join_with '', '' (map (\<lambda>kv. repr_str (fst kv) @ '': '' @ py_repr (snd kv)) kvs) @ ''}''"
| "py_repr (PObject ob) = obj_repr ob"

fun py_str :: "pyval \<Rightarrow> string" where
  "py_str (PStr s) = s"
| "py_str (PObject ob) = obj_str ob"
| "py_str v = py_repr v"

text \<open>
  Whether \<open>json.dump\<close> renders a value: it raises \<open>TypeError\<close> at the first object that is
  not a dict, list, str, int, float, bool or None.
\<close>

fun json_ok :: "pyval \<Rightarrow> bool" where
  "json_ok (PList xs) = list_all json_ok xs"
| "json_ok (PDict kvs) = list_all (\<lambda>kv. json_ok (snd kv)) kvs"
| "json_ok (PObject ob) = obj_json ob"
| "json_ok v = True"

section \<open>Strings and paths\<close>

text \<open>\<open>s.replace(a, b)\<close> for one-character \<open>a\<close> and \<open>b\<close>: every occurrence is replaced.\<close>

definition str_replace :: "char \<Rightarrow> char \<Rightarrow> string \<Rightarrow> string" where
  "str_replace a b s = map (\<lambda>c. if c = a then b else c) s"

definition startswith :: "string \<Rightarrow> string \<Rightarrow> bool" where
  "startswith s p = (take (length p) s = p)"

definition endswith :: "string \<Rightarrow> string \<Rightarrow> bool" where
  "endswith s x = (length x \<le> length s \<and> drop (length s - length x) s = x)"

text \<open>\<open>s.split(c)\<close>: the pieces between the occurrences of \<open>c\<close>; never the empty list.\<close>

fun split_on :: "char \<Rightarrow> string \<Rightarrow> string list" where
  "split_on c [] = [[]]"
| "split_on c (x # xs) =
     (if x = c then [] # split_on c xs
      else (case split_on c xs of [] \<Rightarrow> [[x]] | t # ts \<Rightarrow> (x # t) # ts))"

text \<open>
  \<open>posixpath.join(a, *p)\<close>: a component that starts with the separator replaces what was
  joined so far; otherwise it is appended, after a separator unless the path so far is
  empty or ends with one.
\<close>

fun os_path_join :: "string \<Rightarrow> string list \<Rightarrow> string" where
  "os_path_join path [] = path"
| "os_path_join path (b # bs) =
     (if startswith b ''/'' then os_path_join b bs
      else if path = [] \<or> endswith path ''/'' then os_path_join (path @ b) bs
      else os_path_join (path @ ''/'' @ b) bs)"

text \<open>\<open>posixpath.basename(p)\<close>: what follows the last separator.\<close>

definition os_path_basename :: "string \<Rightarrow> string" where
  "os_path_basename p = last (split_on (CHR ''/'') p)"

text \<open>\<open>s.rfind(c)\<close>: the index of the last occurrence of \<open>c\<close>, or \<open>-1\<close>.\<close>

definition rfind :: "char \<Rightarrow> string \<Rightarrow> int" where
  "rfind c s =
     (case filter (\<lambda>i. s ! i = c) (rev [0 ..< length s]) of
        [] \<Rightarrow> - 1
      | i # _ \<Rightarrow> int i)"

text \<open>
  \<open>posixpath.splitext(p)\<close> (\<open>genericpath._splitext\<close>): the extension starts at the last
  dot, when that dot comes after the last separator and some character between the
  separator and the dot is not a dot (leading dots of the file name are skipped).
\<close>

definition os_path_splitext :: "string \<Rightarrow> string \<times> string" where
  "os_path_splitext p =
     (let sepIndex = rfind (CHR ''/'') p;
          dotIndex = rfind (CHR ''.'') p
      in if dotIndex > sepIndex \<and>
            list_ex (\<lambda>i. p ! i \<noteq> CHR ''.'') [nat (sepIndex + 1) ..< nat dotIndex]
         then (take (nat dotIndex) p, drop (nat dotIndex) p)
         else (p, []))"

section \<open>Timestamps\<close>

record datetime =
  dt_year :: nat
  dt_month :: nat
  dt_day :: nat
  dt_hour :: nat
  dt_minute :: nat
  dt_second :: nat
  dt_microsecond :: nat

text \<open>A character class \<open>[lo-hi]\<close> of the regular expressions below.\<close>

definition cls :: "char \<Rightarrow> char \<Rightarrow> char \<Rightarrow> bool" where
  "cls lo hi c = ((of_char lo :: nat) \<le> of_char c \<and> (of_char c :: nat) \<le> of_char hi)"

text \<open>
  \<open>datetime.strptime\<close> turns the format into a regular expression (\<open>_strptime.TimeRE\<close>),
  one group for each directive and each dot a literal dot, and requires the match to
  cover the whole string. No group matches a string with a dot in it, so the groups are
  the pieces of the string between its dots. The groups, on ASCII digits:
  \<^item> \<open>%Y\<close>: \<open>\d\d\d\d\<close>
  \<^item> \<open>%m\<close>: \<open>1[0-2]|0[1-9]|[1-9]\<close>
  \<^item> \<open>%d\<close>: \<open>3[0-1]|[1-2]\d|0[1-9]|[1-9]| [1-9]\<close>
  \<^item> \<open>%H\<close>: \<open>2[0-3]|[0-1]\d|\d\<close>
  \<^item> \<open>%M\<close>: \<open>[0-5]\d|\d\<close>
  \<^item> \<open>%S\<close>: \<open>6[0-1]|[0-5]\d|\d\<close>
  \<^item> \<open>%f\<close>: \<open>[0-9]{1,6}\<close>
\<close>

fun re_Y :: "string \<Rightarrow> bool" where
  "re_Y [a, b, c, d] = (is_digit a \<and> is_digit b \<and> is_digit c \<and> is_digit d)"
| "re_Y _ = False"

fun re_m :: "string \<Rightarrow> bool" where
  "re_m [a, b] =
     ((a = CHR ''1'' \<and> cls (CHR ''0'') (CHR ''2'') b) \<or>
      (a = CHR ''0'' \<and> cls (CHR ''1'') (CHR ''9'') b))"
| "re_m [a] = cls (CHR ''1'') (CHR ''9'') a"
| "re_m _ = False"

fun re_d :: "string \<Rightarrow> bool" where
  "re_d [a, b] =
     ((a = CHR ''3'' \<and> cls (CHR ''0'') (CHR ''1'') b) \<or>
      (cls (CHR ''1'') (CHR ''2'') a \<and> is_digit b) \<or>
      (a = CHR ''0'' \<and> cls (CHR ''1'') (CHR ''9'') b) \<or>
      (a = CHR '' '' \<and> cls (CHR ''1'') (CHR ''9'') b))"
| "re_d [a] = cls (CHR ''1'') (CHR ''9'') a"
| "re_d _ = False"

fun re_H :: "string \<Rightarrow> bool" where
  "re_H [a, b] =
     ((a = CHR ''2'' \<and> cls (CHR ''0'') (CHR ''3'') b) \<or>
      (cls (CHR ''0'') (CHR ''1'') a \<and> is_digit b))"
| "re_H [a] = is_digit a"
| "re_H _ = False"

fun re_M :: "string \<Rightarrow> bool" where
  "re_M [a, b] = (cls (CHR ''0'') (CHR ''5'') a \<and> is_digit b)"
| "re_M [a] = is_digit a"
| "re_M _ = False"

fun re_S :: "string \<Rightarrow> bool" where
  "re_S [a, b] =
     ((a = CHR ''6'' \<and> cls (CHR ''0'') (CHR ''1'') b) \<or>
      (cls (CHR ''0'') (CHR ''5'') a \<and> is_digit b))"
| "re_S [a] = is_digit a"
| "re_S _ = False"

definition re_f :: "string \<Rightarrow> bool" where
  "re_f t = (1 \<le> length t \<and> length t \<le> 6 \<and> list_all is_digit t)"

text \<open>\<open>int(t)\<close> on a group: leading blanks are skipped (the day may be \<open>'' 5''\<close>).\<close>

definition py_int :: "string \<Rightarrow> nat" where
  "py_int t = foldl (\<lambda>a c. 10 * a + digit_val c) 0 (dropWhile (\<lambda>c. c = CHR '' '') t)"

definition is_leap :: "nat \<Rightarrow> bool" where
  "is_leap y = (y mod 4 = 0 \<and> (y mod 100 \<noteq> 0 \<or> y mod 400 = 0))"

definition days_in_month :: "nat \<Rightarrow> nat \<Rightarrow> nat" where
  "days_in_month y m =
     (if m = 2 then (if is_leap y then 29 else 28)
      else if m \<in> {4, 6, 9, 11} then 30 else 31)"

text \<open>
  \<open>datetime.strptime(s, "%Y.%m.%d.%H.%M.%S.%f")\<close>; \<open>None\<close> stands for the \<open>ValueError\<close>
  it raises: the string does not match, or the fields are no date (year 0, a day the
  month does not have, second 60 or 61). The fraction is padded with zeros on the right
  to six digits.
\<close>

definition strptime :: "string \<Rightarrow> datetime option" where
  "strptime s =
     (case split_on (CHR ''.'') s of
        [Y, m, d, H, M, S, f] \<Rightarrow>
          if re_Y Y \<and> re_m m \<and> re_d d \<and> re_H H \<and> re_M M \<and> re_S S \<and> re_f f then
            (let year = py_int Y; month = py_int m; day = py_int d; second = py_int S
             in if 1 \<le> year \<and> day \<le> days_in_month year month \<and> second \<le> 59
                then Some \<lparr>dt_year = year, dt_month = month, dt_day = day,
                       dt_hour = py_int H, dt_minute = py_int M, dt_second = second,
                       dt_microsecond = py_int (f @ replicate (6 - length f) (CHR ''0''))\<rparr>
                else None)
          else None
      | _ \<Rightarrow> None)"

text \<open>
  \<open>dt.strftime('%Y%m%dT%H%M%S')\<close>: the year on four digits, the other fields on two;
  the microseconds are not written.
\<close>

definition strftime :: "datetime \<Rightarrow> string" where
  "strftime dt =
     zero_pad 4 (dt_year dt) @ zero_pad 2 (dt_month dt) @ zero_pad 2 (dt_day dt) @ ''T'' @
     zero_pad 2 (dt_hour dt) @ zero_pad 2 (dt_minute dt) @ zero_pad 2 (dt_second dt)"

section \<open>The filesystem\<close>

text \<open>
  What a file holds: bytes, or the text that \<open>json.dump(v, f, indent=4)\<close> writes for a
  value \<open>v\<close>, or the part of that text already written when the encoder raised at a value
  it cannot render.
\<close>

datatype content = Bytes string | Json pyval | JsonTruncated pyval

datatype node = Dir | File content

text \<open>
  A location is the list of names from the root down to it. The filesystem is an
  association list from locations to nodes, the first entry of a location being the
  current one; the root is always a directory. Symbolic links, permissions and the
  other ways in which a system call can fail are outside the model.
\<close>

type_synonym fpath = "string list"

record world =
  cwd :: fpath
  nodes :: "(fpath \<times> node) list"

definition node_at :: "world \<Rightarrow> fpath \<Rightarrow> node option" where
  "node_at w q = (if q = [] then Some Dir else map_of (nodes w) q)"

definition is_dir :: "world \<Rightarrow> fpath \<Rightarrow> bool" where
  "is_dir w q = (node_at w q = Some Dir)"

definition put_node :: "world \<Rightarrow> fpath \<Rightarrow> node \<Rightarrow> world" where
  "put_node w q n = w\<lparr>nodes := (q, n) # nodes w\<rparr>"

text \<open>One component of a path, from the directory \<open>cur\<close>.\<close>

definition step :: "fpath \<Rightarrow> string \<Rightarrow> fpath" where
  "step cur c =
     (if c = [] \<or> c = ''.'' then cur
      else if c = ''..'' then butlast cur
      else cur @ [c])"

text \<open>
  Path resolution: every component is looked up in a directory, so what the path names
  before that component must be an existing directory. The location reached need not
  exist.
\<close>

fun walk :: "world \<Rightarrow> fpath \<Rightarrow> string list \<Rightarrow> py_error + fpath" where
  "walk w cur [] = Inr cur"
| "walk w cur (c # cs) = (if is_dir w cur then walk w (step cur c) cs else Inl OSError)"

definition start_dir :: "world \<Rightarrow> string \<Rightarrow> fpath" where
  "start_dir w p = (if startswith p ''/'' then [] else cwd w)"

definition resolve :: "world \<Rightarrow> string \<Rightarrow> py_error + fpath" where
  "resolve w p =
     (if p = [] then Inl OSError
      else walk w (start_dir w p) (split_on (CHR ''/'') p))"

definition os_path_exists :: "world \<Rightarrow> string \<Rightarrow> bool" where
  "os_path_exists w p =
     (case resolve w p of Inl e \<Rightarrow> False | Inr q \<Rightarrow> node_at w q \<noteq> None)"

definition os_path_isdir :: "world \<Rightarrow> string \<Rightarrow> bool" where
  "os_path_isdir w p =
     (case resolve w p of Inl e \<Rightarrow> False | Inr q \<Rightarrow> is_dir w q)"

text \<open>
  A stateful operation returns the exception it raised, if any, and the filesystem as
  the operation left it.

  \<open>os.makedirs(p, exist_ok=True)\<close> creates each directory along the path that does not
  exist and raises when a name along the path is a file. The directories created before
  the exception stay.
\<close>

fun makedirs_walk :: "world \<Rightarrow> fpath \<Rightarrow> string list \<Rightarrow> py_error option \<times> world" where
  "makedirs_walk w cur [] = (None, w)"
| "makedirs_walk w cur (c # cs) =
     (if c = [] \<or> c = ''.'' then makedirs_walk w cur cs
      else if c = ''..'' then makedirs_walk w (butlast cur) cs
      else (case node_at w (cur @ [c]) of
              None \<Rightarrow> makedirs_walk (put_node w (cur @ [c]) Dir) (cur @ [c]) cs
            | Some Dir \<Rightarrow> makedirs_walk w (cur @ [c]) cs
            | Some (File x) \<Rightarrow> (Some OSError, w)))"

definition os_makedirs :: "world \<Rightarrow> string \<Rightarrow> py_error option \<times> world" where
  "os_makedirs w p =
     (if p = [] \<or> \<not> is_dir w (start_dir w p) then (Some OSError, w)
      else makedirs_walk w (start_dir w p) (split_on (CHR ''/'') p))"

text \<open>\<open>os.listdir(p)\<close>: the names in a directory, in no particular order.\<close>

definition os_listdir :: "world \<Rightarrow> string \<Rightarrow> py_error + string list" where
  "os_listdir w p =
     (case resolve w p of
        Inl e \<Rightarrow> Inl e
      | Inr q \<Rightarrow>
          if is_dir w q
          then Inr (remdups (map (\<lambda>kn. last (fst kn))
                 (filter (\<lambda>kn. fst kn \<noteq> [] \<and> butlast (fst kn) = q) (nodes w))))
          else Inl OSError)"

text \<open>Reading a file, and \<open>open(p, 'w')\<close> followed by writing \<open>c\<close> and closing.\<close>

definition read_file :: "world \<Rightarrow> string \<Rightarrow> py_error + content" where
  "read_file w p =
     (case resolve w p of
        Inl e \<Rightarrow> Inl e
      | Inr q \<Rightarrow> (case node_at w q of Some (File c) \<Rightarrow> Inr c | _ \<Rightarrow> Inl OSError))"

definition write_file :: "world \<Rightarrow> string \<Rightarrow> content \<Rightarrow> py_error option \<times> world" where
  "write_file w p c =
     (case resolve w p of
        Inl e \<Rightarrow> (Some e, w)
      | Inr q \<Rightarrow> if is_dir w q then (Some OSError, w) else (None, put_node w q (File c)))"

definition samefile :: "world \<Rightarrow> string \<Rightarrow> string \<Rightarrow> bool" where
  "samefile w a b =
     (case resolve w a of
        Inl e \<Rightarrow> False
      | Inr qa \<Rightarrow>
          (case resolve w b of
             Inl e \<Rightarrow> False
           | Inr qb \<Rightarrow> node_at w qa \<noteq> None \<and> node_at w qb \<noteq> None \<and> qa = qb))"

text \<open>
  \<open>shutil.copyfile\<close> raises \<open>SameFileError\<close> when both paths name one file, then opens
  the source for reading and the destination for writing. \<open>shutil.copy\<close> copies into
  the destination when it is a directory, under the base name of the source.
\<close>

definition shutil_copyfile :: "world \<Rightarrow> string \<Rightarrow> string \<Rightarrow> py_error option \<times> world" where
  "shutil_copyfile w src dst =
     (if samefile w src dst then (Some OSError, w)
      else (case read_file w src of
              Inl e \<Rightarrow> (Some e, w)
            | Inr c \<Rightarrow> write_file w dst c))"

definition copy_target :: "world \<Rightarrow> string \<Rightarrow> string \<Rightarrow> string" where
  "copy_target w src dst =
     (if os_path_isdir w dst then os_path_join dst [os_path_basename src] else dst)"

definition shutil_copy :: "world \<Rightarrow> string \<Rightarrow> string \<Rightarrow> py_error option \<times> world" where
  "shutil_copy w src dst = shutil_copyfile w src (copy_target w src dst)"

section \<open>\<open>createMirroredDataset\<close>\<close>

definition dataset_root :: string where
  "dataset_root = ''/home/bryant/Desktop/mri_dataset''"

definition subfolders :: "string list" where
  "subfolders = [''mat'', ''csv'', ''dcm'', ''raw'', ''seq'']"

text \<open>The extension, the source subdirectory and the destination subdirectory.\<close>

definition file_map :: "(string \<times> string \<times> string) list" where
  "file_map =
     [(''.mat'', ''mat'', ''mat''),
      (''.csv'', ''csv'', ''csv''),
      (''.dcm'', ''dcm'', ''dcm''),
      (''.h5'', ''ismrmrd'', ''raw'')]"

text \<open>
  \<open>session_info.get('subject_id', 'UnknownSubject').replace(" ", "_")\<close>. Of the values
  modelled, only a string has a \<open>replace\<close> method that takes two strings.
\<close>

definition subject_label_of :: "pydict \<Rightarrow> py_error + string" where
  "subject_label_of session_info =
     (case dict_get session_info ''subject_id'' (PStr ''UnknownSubject'') of
        PStr s \<Rightarrow> Inr (str_replace (CHR '' '') (CHR ''_'') s)
      | _ \<Rightarrow> Inl AttributeError)"

text \<open>
  The session label: \<open>name_string\<close> is looked up, the function raises \<open>ValueError\<close> when
  it is falsy, \<open>strptime\<close> raises \<open>TypeError\<close> on what is not a string and \<open>ValueError\<close> on
  a string that does not parse.
\<close>

definition session_label_of :: "pydict \<Rightarrow> py_error + string" where
  "session_label_of scan_info =
     (let timestamp_str = dict_get scan_info ''name_string'' PNone
      in case py_truth timestamp_str of
           Inl e \<Rightarrow> Inl e
         | Inr truthy \<Rightarrow>
             if \<not> truthy then Inl ValueError
             else (case timestamp_str of
                     PStr s \<Rightarrow>
                       (case strptime s of
                          None \<Rightarrow> Inl ValueError
                        | Some dt_object \<Rightarrow> Inr (''ses-'' @ strftime dt_object))
                   | _ \<Rightarrow> Inl TypeError))"

text \<open>The five subdirectories are made in order; the loop stops at the first exception.\<close>

fun make_subfolders :: "world \<Rightarrow> string \<Rightarrow> string list \<Rightarrow> py_error option \<times> world" where
  "make_subfolders w dataset_session_path [] = (None, w)"
| "make_subfolders w dataset_session_path (subfolder # rest) =
     (case os_makedirs w (os_path_join dataset_session_path [subfolder]) of
        (Some e, w') \<Rightarrow> (Some e, w')
      | (None, w') \<Rightarrow> make_subfolders w' dataset_session_path rest)"

text \<open>
  \<open>os.path.splitext(scan_info.get('fileName', ''))[0]\<close>, with \<open>TypeError\<close> for a value
  that is no path and \<open>ValueError\<close> for an empty stem.
\<close>

definition base_filename_of :: "pydict \<Rightarrow> py_error + string" where
  "base_filename_of scan_info =
     (case dict_get scan_info ''fileName'' (PStr []) of
        PStr f \<Rightarrow>
          (let base_filename = fst (os_path_splitext f)
           in if base_filename = [] then Inl ValueError else Inr base_filename)
      | _ \<Rightarrow> Inl TypeError)"

definition try_copy :: "world \<Rightarrow> string \<Rightarrow> string \<Rightarrow> py_error option \<times> world" where
  "try_copy w src_path dest_path =
     (if os_path_exists w src_path then shutil_copy w src_path dest_path else (None, w))"

fun copy_main_files ::
  "world \<Rightarrow> string \<Rightarrow> string \<Rightarrow> string \<Rightarrow> (string \<times> string \<times> string) list \<Rightarrow>
   py_error option \<times> world" where
  "copy_main_files w primary_save_path dataset_session_path base_filename [] = (None, w)"
| "copy_main_files w primary_save_path dataset_session_path base_filename
       ((ext, src_subdir, dest_subdir) # rest) =
     (case try_copy w
             (os_path_join primary_save_path [src_subdir, base_filename @ ext])
             (os_path_join dataset_session_path [dest_subdir, base_filename @ ext]) of
        (Some e, w') \<Rightarrow> (Some e, w')
      | (None, w') \<Rightarrow>
          copy_main_files w' primary_save_path dataset_session_path base_filename rest)"

fun copy_seq_loop ::
  "world \<Rightarrow> string \<Rightarrow> string \<Rightarrow> string \<Rightarrow> string list \<Rightarrow> py_error option \<times> world" where
  "copy_seq_loop w primary_seq_dir dest_seq_dir base_filename [] = (None, w)"
| "copy_seq_loop w primary_seq_dir dest_seq_dir base_filename (seq_file # rest) =
     (if startswith seq_file base_filename \<and> endswith seq_file ''.seq'' then
        (case try_copy w (os_path_join primary_seq_dir [seq_file])
                (os_path_join dest_seq_dir [seq_file]) of
           (Some e, w') \<Rightarrow> (Some e, w')
         | (None, w') \<Rightarrow> copy_seq_loop w' primary_seq_dir dest_seq_dir base_filename rest)
      else copy_seq_loop w primary_seq_dir dest_seq_dir base_filename rest)"

text \<open>The directory is listed once, before the first copy.\<close>

definition copy_seq_files ::
  "world \<Rightarrow> string \<Rightarrow> string \<Rightarrow> string \<Rightarrow> py_error option \<times> world" where
  "copy_seq_files w primary_save_path dataset_session_path base_filename =
     (let primary_seq_dir = os_path_join primary_save_path [''seq''];
          dest_seq_dir = os_path_join dataset_session_path [''seq'']
      in if os_path_exists w primary_seq_dir then
           (case os_listdir w primary_seq_dir of
              Inl e \<Rightarrow> (Some e, w)
            | Inr entries \<Rightarrow>
                copy_seq_loop w primary_seq_dir dest_seq_dir base_filename entries)
         else (None, w))"

definition scan_parameters :: "pydict \<Rightarrow> pydict" where
  "scan_parameters scan_info = map (\<lambda>kv. (fst kv, PStr (py_str (snd kv)))) scan_info"

definition full_metadata :: "pydict \<Rightarrow> pydict \<Rightarrow> pyval" where
  "full_metadata session_info scan_info =
     PDict [(''session_info'', PDict session_info),
            (''scan_parameters'', PDict (scan_parameters scan_info))]"

text \<open>
  \<open>open(metadata_path, "w")\<close> creates or empties the file; \<open>json.dump\<close> then writes the
  text, or what comes before the first value it cannot render and raises \<open>TypeError\<close>.
\<close>

definition save_metadata :: "world \<Rightarrow> string \<Rightarrow> pyval \<Rightarrow> py_error option \<times> world" where
  "save_metadata w metadata_path metadata =
     (if json_ok metadata then write_file w metadata_path (Json metadata)
      else (case write_file w metadata_path (JsonTruncated metadata) of
              (Some e, w') \<Rightarrow> (Some e, w')
            | (None, w') \<Rightarrow> (Some TypeError, w')))"

text \<open>The body of the \<open>try\<close> statement: the exception raised or the value returned.\<close>

definition try_body ::
  "world \<Rightarrow> pydict \<Rightarrow> pydict \<Rightarrow> string \<Rightarrow> (py_error + string) \<times> world" where
  "try_body w session_info scan_info primary_save_path =
     (case subject_label_of session_info of
        Inl e \<Rightarrow> (Inl e, w)
      | Inr subject_label \<Rightarrow>
     (case session_label_of scan_info of
        Inl e \<Rightarrow> (Inl e, w)
      | Inr session_label \<Rightarrow>
     (let dataset_session_path =
            os_path_join dataset_root [''sub-'' @ subject_label, session_label]
      in
     (case make_subfolders w dataset_session_path subfolders of
        (Some e, w1) \<Rightarrow> (Inl e, w1)
      | (None, w1) \<Rightarrow>
     (case base_filename_of scan_info of
        Inl e \<Rightarrow> (Inl e, w1)
      | Inr base_filename \<Rightarrow>
     (case copy_main_files w1 primary_save_path dataset_session_path base_filename file_map of
        (Some e, w2) \<Rightarrow> (Inl e, w2)
      | (None, w2) \<Rightarrow>
     (case copy_seq_files w2 primary_save_path dataset_session_path base_filename of
        (Some e, w3) \<Rightarrow> (Inl e, w3)
      | (None, w3) \<Rightarrow>
     (case save_metadata w3 (os_path_join dataset_session_path [''metadata.json''])
             (full_metadata session_info scan_info) of
        (Some e, w4) \<Rightarrow> (Inl e, w4)
      | (None, w4) \<Rightarrow> (Inr dataset_session_path, w4)))))))))"

text \<open>
  The function: the path on success, \<open>None\<close> when the body raised, and the filesystem
  as the call left it.
\<close>

definition createMirroredDataset ::
  "world \<Rightarrow> pydict \<Rightarrow> pydict \<Rightarrow> string \<Rightarrow> string option \<times> world" where
  "createMirroredDataset w session_info scan_info primary_save_path =
     (case try_body w session_info scan_info primary_save_path of
        (Inl e, w') \<Rightarrow> (None, w')
      | (Inr path, w') \<Rightarrow> (Some path, w'))"

section \<open>Relations between filesystems\<close>

text \<open>Every named step of a path is an existing directory.\<close>

fun dirs_along :: "world \<Rightarrow> fpath \<Rightarrow> string list \<Rightarrow> bool" where
  "dirs_along w cur [] = True"
| "dirs_along w cur (c # cs) =
     (if c = [] \<or> c = ''.'' then dirs_along w cur cs
      else if c = ''..'' then dirs_along w (butlast cur) cs
      else is_dir w (cur @ [c]) \<and> dirs_along w (cur @ [c]) cs)"

text \<open>The second filesystem has the directories of the first, at the same places.\<close>

definition same_dirs :: "world \<Rightarrow> world \<Rightarrow> bool" where
  "same_dirs w w' = (cwd w' = cwd w \<and> (\<forall>q. is_dir w' q = is_dir w q))"

text \<open>The second filesystem is the first with more directories.\<close>

definition dirs_grow :: "world \<Rightarrow> world \<Rightarrow> bool" where
  "dirs_grow w w' =
     (cwd w' = cwd w \<and>
      (\<forall>q. node_at w q \<noteq> None \<longrightarrow> node_at w' q = node_at w q) \<and>
      (\<forall>q. node_at w q = None \<longrightarrow> node_at w' q = None \<or> node_at w' q = Some Dir))"

text \<open>
  The second filesystem is the first with files written, each at a location whose name
  ends with a character of \<open>X\<close>.
\<close>

definition writes_in :: "char set \<Rightarrow> world \<Rightarrow> world \<Rightarrow> bool" where
  "writes_in X w w' =
     (same_dirs w w' \<and>
      (\<forall>q. node_at w' q \<noteq> node_at w q \<longrightarrow> q \<noteq> [] \<and> last q \<noteq> [] \<and> last (last q) \<in> X))"

text \<open>What a path names: the node at the location it resolves to, if any.\<close>

definition stat :: "world \<Rightarrow> string \<Rightarrow> node option" where
  "stat w p = (case resolve w p of Inl e \<Rightarrow> None | Inr q \<Rightarrow> node_at w q)"

section \<open>An example acquisition\<close>

text \<open>
  A working directory \<open>/work\<close> with an acquisition under \<open>acq\<close>: a \<open>.mat\<close> file and three
  sequence files, no \<open>csv\<close>, \<open>dcm\<close> or \<open>ismrmrd\<close> directory.
\<close>

definition ex_world :: world where
  "ex_world = \<lparr>cwd = [''work''],
     nodes = [([''work''], Dir),
              ([''work'', ''acq''], Dir),
              ([''work'', ''acq'', ''mat''], Dir),
              ([''work'', ''acq'', ''mat'', ''X1.mat''], File (Bytes ''matrix'')),
              ([''work'', ''acq'', ''seq''], Dir),
              ([''work'', ''acq'', ''seq'', ''X1.seq''], File (Bytes ''pulse'')),
              ([''work'', ''acq'', ''seq'', ''X1_cal.seq''], File (Bytes ''calibration'')),
              ([''work'', ''acq'', ''seq'', ''Y2.seq''], File (Bytes ''other''))]\<rparr>"

definition ex_session :: pydict where
  "ex_session = [(''subject_id'', PStr ''Jane Doe''), (''study_id'', PInt 7)]"

definition ex_scan :: pydict where
  "ex_scan = [(''name_string'', PStr ''2024.03.15.09.30.00.123456''),
              (''fileName'', PStr ''X1.mat''),
              (''nScans'', PInt 4)]"

definition ex_path :: string where
  "ex_path = ''/home/bryant/Desktop/mri_dataset/sub-Jane_Doe/ses-20240315T093000''"

definition ex_dir :: fpath where
  "ex_dir = [''home'', ''bryant'', ''Desktop'', ''mri_dataset'', ''sub-Jane_Doe'',
             ''ses-20240315T093000'']"

section \<open>Nodes and directories\<close>

lemma cwd_put_node [simp]: "cwd (put_node w q n) = cwd w"
  by (simp add: put_node_def)

lemma node_at_put_node:
  "node_at (put_node w q n) x = (if x = [] then Some Dir else if x = q then Some n else node_at w x)"
  by (simp add: node_at_def put_node_def)

lemma node_at_root [simp]: "node_at w [] = Some Dir"
  by (simp add: node_at_def)

lemma is_dir_root [simp]: "is_dir w []"
  by (simp add: is_dir_def node_at_def)

lemma is_dir_put_file:
  assumes "\<not> is_dir w q"
  shows "is_dir (put_node w q (File c)) x = is_dir w x"
  using assms by (auto simp: is_dir_def node_at_put_node)

lemma is_dir_put_dir:
  "is_dir (put_node w q Dir) x = (x = q \<or> is_dir w x)"
  by (auto simp: is_dir_def node_at_put_node)

subsection \<open>The relations\<close>

lemma same_dirs_refl [simp]: "same_dirs w w"
  by (simp add: same_dirs_def)

lemma same_dirs_trans: "same_dirs a b \<Longrightarrow> same_dirs b c \<Longrightarrow> same_dirs a c"
  by (simp add: same_dirs_def)

lemma same_dirs_sym: "same_dirs a b \<Longrightarrow> same_dirs b a"
  by (simp add: same_dirs_def)

lemma dirs_grow_refl [simp]: "dirs_grow w w"
  by (simp add: dirs_grow_def)

lemma dirs_grow_trans:
  assumes "dirs_grow a b" "dirs_grow b c"
  shows "dirs_grow a c"
proof -
  have 1: "cwd c = cwd a" using assms by (simp add: dirs_grow_def)
  have 2: "node_at c q = node_at a q" if "node_at a q \<noteq> None" for q
  proof -
    have "node_at b q = node_at a q" using assms(1) that by (simp add: dirs_grow_def)
    moreover have "node_at c q = node_at b q"
      using assms(2) that calculation by (simp add: dirs_grow_def)
    ultimately show ?thesis by simp
  qed
  have 3: "node_at c q = None \<or> node_at c q = Some Dir" if "node_at a q = None" for q
  proof -
    have "node_at b q = None \<or> node_at b q = Some Dir"
      using assms(1) that by (simp add: dirs_grow_def)
    then show ?thesis
    proof
      assume "node_at b q = None"
      then show ?thesis using assms(2) by (simp add: dirs_grow_def)
    next
      assume "node_at b q = Some Dir"
      then have "node_at c q = Some Dir" using assms(2) by (simp add: dirs_grow_def)
      then show ?thesis by simp
    qed
  qed
  show ?thesis unfolding dirs_grow_def using 1 2 3 by simp
qed

lemma dirs_grow_is_dir: "dirs_grow w w' \<Longrightarrow> is_dir w q \<Longrightarrow> is_dir w' q"
  by (simp add: dirs_grow_def is_dir_def)

lemma dirs_grow_put_dir:
  assumes "node_at w q = None"
  shows "dirs_grow w (put_node w q Dir)"
  using assms by (auto simp: dirs_grow_def node_at_put_node)

lemma writes_in_refl [simp]: "writes_in X w w"
  by (simp add: writes_in_def)

lemma writes_in_mono: "writes_in X w w' \<Longrightarrow> X \<subseteq> Y \<Longrightarrow> writes_in Y w w'"
  by (auto simp: writes_in_def)

lemma writes_in_trans:
  assumes "writes_in X a b" "writes_in Y b c"
  shows "writes_in (X \<union> Y) a c"
proof -
  have 1: "same_dirs a c"
    using assms same_dirs_trans [of a b c] by (simp add: writes_in_def)
  have 2: "q \<noteq> [] \<and> last q \<noteq> [] \<and> last (last q) \<in> X \<union> Y"
    if "node_at c q \<noteq> node_at a q" for q
  proof -
    from that have "node_at b q \<noteq> node_at a q \<or> node_at c q \<noteq> node_at b q" by auto
    then show ?thesis
    proof
      assume "node_at b q \<noteq> node_at a q"
      then show ?thesis using assms(1) by (simp add: writes_in_def)
    next
      assume "node_at c q \<noteq> node_at b q"
      then show ?thesis using assms(2) by (simp add: writes_in_def)
    qed
  qed
  show ?thesis unfolding writes_in_def using 1 2 by blast
qed

lemma writes_in_same_dirs: "writes_in X w w' \<Longrightarrow> same_dirs w w'"
  by (simp add: writes_in_def)

lemma writes_in_node:
  assumes "writes_in X w w'" "q = [] \<or> last q = [] \<or> last (last q) \<notin> X"
  shows "node_at w' q = node_at w q"
  using assms by (auto simp: writes_in_def)

lemma writes_in_put_file:
  assumes "\<not> is_dir w q" "q \<noteq> []" "last q \<noteq> []" "last (last q) \<in> X"
  shows "writes_in X w (put_node w q (File c))"
  using assms by (auto simp: writes_in_def same_dirs_def is_dir_put_file node_at_put_node)

section \<open>Path resolution\<close>

lemma walk_cong:
  assumes "\<And>q. is_dir w' q = is_dir w q"
  shows "walk w' cur cs = walk w cur cs"
  by (induction cs arbitrary: cur) (simp_all add: assms)

lemma resolve_same_dirs:
  assumes "same_dirs w w'"
  shows "resolve w' p = resolve w p"
  using assms walk_cong [of w' w]
  by (simp add: resolve_def start_dir_def same_dirs_def)

lemma walk_append:
  "walk w cur (cs @ [t]) =
     (case walk w cur cs of
        Inl e \<Rightarrow> Inl e
      | Inr c' \<Rightarrow> if is_dir w c' then Inr (step c' t) else Inl OSError)"
  by (induction cs arbitrary: cur) simp_all

lemma split_on_nonempty [simp]: "split_on c s \<noteq> []"
  by (induction s) (auto split: list.splits)

lemma split_on_append_sep:
  "split_on c (a @ c # b) = split_on c a @ split_on c b"
  by (induction a) (auto split: list.splits)

lemma split_on_no_sep:
  "c \<notin> set s \<Longrightarrow> split_on c s = [s]"
  by (induction s) auto

lemma split_on_snoc_name:
  assumes "c \<notin> set t"
  shows "split_on c (a @ c # t) = split_on c a @ [t]"
  using assms by (simp add: split_on_append_sep split_on_no_sep)

lemma last_split_on:
  "last (split_on c s) = rev (takeWhile (\<lambda>x. x \<noteq> c) (rev s))"
proof (induction s rule: rev_induct)
  case Nil
  then show ?case by simp
next
  case (snoc x xs)
  show ?case
  proof (cases "x = c")
    case True
    then have "split_on c (xs @ [x]) = split_on c xs @ [[]]"
      using split_on_append_sep [of c xs "[]"] by simp
    then show ?thesis using True by simp
  next
    case False
    have "\<And>ys. split_on c (ys @ [x]) = butlast (split_on c ys) @ [last (split_on c ys) @ [x]]"
    proof -
      fix ys show "split_on c (ys @ [x]) = butlast (split_on c ys) @ [last (split_on c ys) @ [x]]"
        using False by (induction ys) (auto split: list.splits)
    qed
    then show ?thesis using snoc False by simp
  qed
qed

lemma last_split_on_name:
  assumes "s \<noteq> []" "last s \<noteq> c"
  shows "last (split_on c s) \<noteq> [] \<and> last (last (split_on c s)) = last s"
proof -
  obtain xs x where s: "s = xs @ [x]" using assms(1) by (cases s rule: rev_cases) auto
  then have "x \<noteq> c" using assms(2) by simp
  then show ?thesis using s by (simp add: last_split_on)
qed

lemma split_on_butlast_last: "split_on c s = butlast (split_on c s) @ [last (split_on c s)]"
  by simp

text \<open>
  A path whose last character is neither the separator nor a dot resolves to a location
  whose name ends with that character.
\<close>

lemma resolve_last_char:
  assumes "resolve w p = Inr q" "p \<noteq> []" "last p \<noteq> CHR ''/''" "last p \<noteq> CHR ''.''"
  shows "q \<noteq> [] \<and> last q \<noteq> [] \<and> last (last q) = last p"
proof -
  let ?cs = "split_on (CHR ''/'') p"
  let ?t = "last ?cs"
  have t: "?t \<noteq> [] \<and> last ?t = last p"
    using last_split_on_name [OF assms(2,3)] by simp
  then have name: "?t \<noteq> [] \<and> ?t \<noteq> ''.'' \<and> ?t \<noteq> ''..''"
    using assms(4) by auto
  have "walk w (start_dir w p) ?cs = Inr q"
    using assms(1,2) by (simp add: resolve_def)
  moreover have "walk w (start_dir w p) ?cs =
      (case walk w (start_dir w p) (butlast ?cs) of
         Inl e \<Rightarrow> Inl e
       | Inr c' \<Rightarrow> if is_dir w c' then Inr (step c' ?t) else Inl OSError)"
    using walk_append [of w "start_dir w p" "butlast ?cs" ?t] by simp
  ultimately obtain c' where "q = step c' ?t"
    by (auto split: sum.splits if_splits)
  then have "q = c' @ [?t]" using name by (simp add: step_def)
  then show ?thesis using t by simp
qed

section \<open>Joined paths\<close>

lemma os_path_join_last:
  assumes "bs \<noteq> []" "last bs \<noteq> []"
  shows "os_path_join p bs \<noteq> [] \<and> last (os_path_join p bs) = last (last bs)"
  using assms
proof (induction bs arbitrary: p)
  case Nil
  then show ?case by simp
next
  case (Cons b bs)
  show ?case
  proof (cases "bs = []")
    case True
    then have "b \<noteq> []" using Cons.prems by simp
    then show ?thesis using True by simp
  next
    case False
    then have "last bs \<noteq> []" using Cons.prems by simp
    then show ?thesis using Cons.IH False by simp
  qed
qed

declare os_path_join.simps [simp del]

lemma basename_last:
  assumes "p \<noteq> []" "last p \<noteq> CHR ''/''"
  shows "os_path_basename p \<noteq> [] \<and> last (os_path_basename p) = last p"
  using last_split_on_name [OF assms] by (simp add: os_path_basename_def)

section \<open>Reading under unchanged directories\<close>

lemma stat_writes_in:
  assumes "writes_in X w w'" "p \<noteq> []" "last p \<noteq> CHR ''/''" "last p \<noteq> CHR ''.''" "last p \<notin> X"
  shows "stat w' p = stat w p"
proof -
  have r: "resolve w' p = resolve w p"
    using assms(1) by (simp add: resolve_same_dirs writes_in_def)
  show ?thesis
  proof (cases "resolve w p")
    case (Inl e)
    then show ?thesis using r by (simp add: stat_def)
  next
    case (Inr q)
    then have "last (last q) = last p"
      using resolve_last_char [OF Inr assms(2,3,4)] by simp
    then have "node_at w' q = node_at w q"
      using assms(1,5) writes_in_node [of X w w' q] by simp
    then show ?thesis using r Inr by (simp add: stat_def)
  qed
qed

lemma os_path_exists_stat: "os_path_exists w p = (stat w p \<noteq> None)"
  by (simp add: os_path_exists_def stat_def split: sum.splits)

lemma os_path_isdir_stat: "os_path_isdir w p = (stat w p = Some Dir)"
  by (simp add: os_path_isdir_def stat_def is_dir_def split: sum.splits)

lemma read_file_stat: "read_file w p = Inr c \<longleftrightarrow> stat w p = Some (File c)"
  by (auto simp: read_file_def stat_def split: sum.splits option.splits node.splits)

lemma os_path_isdir_same_dirs:
  assumes "same_dirs w w'"
  shows "os_path_isdir w' p = os_path_isdir w p"
  using assms resolve_same_dirs [OF assms, of p]
  by (simp add: os_path_isdir_def same_dirs_def split: sum.splits)

lemma copy_target_same_dirs:
  assumes "same_dirs w w'"
  shows "copy_target w' src dst = copy_target w src dst"
  using os_path_isdir_same_dirs [OF assms] by (simp add: copy_target_def)

section \<open>Writing and copying\<close>

lemma write_file_cases:
  "(\<exists>e. write_file w p c = (Some e, w)) \<or>
   (\<exists>q. resolve w p = Inr q \<and> \<not> is_dir w q \<and> write_file w p c = (None, put_node w q (File c)))"
  by (auto simp: write_file_def split: sum.splits)

lemma write_file_failure: "write_file w p c = (Some e, w') \<Longrightarrow> w' = w"
  by (auto simp: write_file_def split: sum.splits if_splits)

lemma write_file_success:
  assumes "write_file w p c = (None, w')"
  shows "\<exists>q. resolve w p = Inr q \<and> \<not> is_dir w q \<and> w' = put_node w q (File c)"
  using assms by (auto simp: write_file_def split: sum.splits if_splits)

lemma write_file_writes:
  assumes "p \<noteq> []" "last p \<noteq> CHR ''/''" "last p \<noteq> CHR ''.''"
  shows "writes_in {last p} w (snd (write_file w p c))"
proof -
  consider e where "write_file w p c = (Some e, w)"
    | q where "resolve w p = Inr q" "\<not> is_dir w q" "write_file w p c = (None, put_node w q (File c))"
    using write_file_cases [of w p c] by blast
  then show ?thesis
  proof cases
    case 1
    then show ?thesis by simp
  next
    case 2
    have "q \<noteq> [] \<and> last q \<noteq> [] \<and> last (last q) = last p"
      using resolve_last_char [OF 2(1) assms] .
    then show ?thesis using 2 by (simp add: writes_in_put_file)
  qed
qed

lemma write_file_stat:
  assumes "write_file w p c = (None, w')"
  shows "stat w' p = Some (File c)"
proof -
  obtain q where q: "resolve w p = Inr q" "\<not> is_dir w q" "w' = put_node w q (File c)"
    using write_file_success [OF assms] by blast
  have "q \<noteq> []" using q(2) by auto
  have "same_dirs w w'"
    using q(2,3) by (simp add: same_dirs_def is_dir_put_file)
  then have "resolve w' p = Inr q" using q(1) by (simp add: resolve_same_dirs)
  then show ?thesis using q(3) \<open>q \<noteq> []\<close> by (simp add: stat_def node_at_put_node)
qed

lemma copy_target_last:
  assumes "src \<noteq> []" "last src \<noteq> CHR ''/''" "dst \<noteq> []" "last dst = last src"
  shows "copy_target w src dst \<noteq> [] \<and> last (copy_target w src dst) = last src"
proof (cases "os_path_isdir w dst")
  case True
  have "os_path_basename src \<noteq> [] \<and> last (os_path_basename src) = last src"
    using basename_last [OF assms(1,2)] .
  then show ?thesis
    using True os_path_join_last [of "[os_path_basename src]" dst]
    by (simp add: copy_target_def)
next
  case False
  then show ?thesis using assms by (simp add: copy_target_def)
qed

lemma shutil_copyfile_writes:
  assumes "p \<noteq> []" "last p \<noteq> CHR ''/''" "last p \<noteq> CHR ''.''"
  shows "writes_in {last p} w (snd (shutil_copyfile w src p))"
proof (cases "samefile w src p")
  case True
  then show ?thesis by (simp add: shutil_copyfile_def)
next
  case False
  show ?thesis
  proof (cases "read_file w src")
    case (Inl e)
    then show ?thesis using False by (simp add: shutil_copyfile_def)
  next
    case (Inr c)
    then show ?thesis
      using False write_file_writes [OF assms, of w c] by (simp add: shutil_copyfile_def)
  qed
qed

lemma try_copy_writes:
  assumes "src \<noteq> []" "last src \<noteq> CHR ''/''" "last src \<noteq> CHR ''.''" "dst \<noteq> []"
    and "last dst = last src"
  shows "writes_in {last src} w (snd (try_copy w src dst))"
proof (cases "os_path_exists w src")
  case False
  then show ?thesis by (simp add: try_copy_def)
next
  case True
  let ?t = "copy_target w src dst"
  have t: "?t \<noteq> [] \<and> last ?t = last src"
    using copy_target_last [OF assms(1,2,4,5)] .
  then have "writes_in {last ?t} w (snd (shutil_copyfile w src ?t))"
    using assms(2,3) by (intro shutil_copyfile_writes) simp_all
  then show ?thesis using True t by (simp add: try_copy_def shutil_copy_def)
qed

text \<open>What one call of the helper does when it raises nothing.\<close>

lemma try_copy_success:
  assumes "try_copy w src dst = (None, w')"
  shows "(os_path_exists w src \<longrightarrow>
            (\<exists>c. stat w src = Some (File c) \<and> stat w' (copy_target w src dst) = Some (File c))) \<and>
         (\<not> os_path_exists w src \<longrightarrow> w' = w)"
proof (cases "os_path_exists w src")
  case False
  then show ?thesis using assms by (simp add: try_copy_def)
next
  case True
  let ?t = "copy_target w src dst"
  have cf: "shutil_copyfile w src ?t = (None, w')"
    using assms True by (simp add: try_copy_def shutil_copy_def)
  then obtain c where c: "read_file w src = Inr c" "write_file w ?t c = (None, w')"
    by (auto simp: shutil_copyfile_def split: if_splits sum.splits)
  have "stat w src = Some (File c)"
    using c(1) by (simp add: read_file_stat)
  moreover have "stat w' ?t = Some (File c)"
    using write_file_stat [OF c(2)] .
  ultimately show ?thesis using True by simp
qed

lemma try_copy_failure:
  assumes "try_copy w src dst = (Some e, w')"
  shows "w' = w"
  using assms
  by (auto simp: try_copy_def shutil_copy_def shutil_copyfile_def
        split: if_splits sum.splits dest: write_file_failure)

section \<open>The copy of the main files\<close>

lemma main_paths_last:
  assumes "ext \<noteq> []"
  shows "os_path_join p [sd, base @ ext] \<noteq> [] \<and>
         last (os_path_join p [sd, base @ ext]) = last ext"
  using os_path_join_last [of "[sd, base @ ext]" p] assms by simp

declare copy_main_files.simps [simp del]

lemma copy_main_files_Nil [simp]: "copy_main_files w P S base [] = (None, w)"
  by (simp add: copy_main_files.simps)

lemma copy_main_files_Cons:
  "copy_main_files w P S base ((ext, sd, dd) # rest) = (r, w') \<longleftrightarrow>
     (\<exists>r1 w1. try_copy w (os_path_join P [sd, base @ ext]) (os_path_join S [dd, base @ ext]) = (r1, w1) \<and>
        (case r1 of Some e \<Rightarrow> r = Some e \<and> w' = w1
         | None \<Rightarrow> copy_main_files w1 P S base rest = (r, w')))"
  by (cases "try_copy w (os_path_join P [sd, base @ ext]) (os_path_join S [dd, base @ ext])")
     (auto simp: copy_main_files.simps split: option.splits)

lemma copy_main_files_writes:
  assumes "\<forall>m \<in> set fm. fst m \<noteq> [] \<and> last (fst m) \<noteq> CHR ''/'' \<and> last (fst m) \<noteq> CHR ''.''"
  shows "writes_in ((\<lambda>m. last (fst m)) ` set fm) w (snd (copy_main_files w P S base fm))"
  using assms
proof (induction fm arbitrary: w)
  case Nil
  then show ?case by simp
next
  case (Cons m rest)
  obtain ext sd dd where m: "m = (ext, sd, dd)" by (cases m) auto
  let ?src = "os_path_join P [sd, base @ ext]"
  let ?dst = "os_path_join S [dd, base @ ext]"
  have ext: "ext \<noteq> []" "last ext \<noteq> CHR ''/''" "last ext \<noteq> CHR ''.''"
    using Cons.prems m by auto
  have src: "?src \<noteq> [] \<and> last ?src = last ext" using main_paths_last [OF ext(1)] .
  have dst: "?dst \<noteq> [] \<and> last ?dst = last ext" using main_paths_last [OF ext(1)] .
  obtain r1 w1 where t: "try_copy w ?src ?dst = (r1, w1)" by (cases "try_copy w ?src ?dst") auto
  have step: "writes_in {last ext} w w1"
    using try_copy_writes [of ?src ?dst w] src dst ext t by simp
  show ?case
  proof (cases r1)
    case (Some e)
    then have "snd (copy_main_files w P S base (m # rest)) = w1"
      using t m by (simp add: copy_main_files.simps)
    then show ?thesis using step m by (auto intro: writes_in_mono)
  next
    case None
    then have eq: "snd (copy_main_files w P S base (m # rest)) = snd (copy_main_files w1 P S base rest)"
      using t m by (simp add: copy_main_files.simps)
    have "writes_in ((\<lambda>m. last (fst m)) ` set rest) w1 (snd (copy_main_files w1 P S base rest))"
      using Cons.IH Cons.prems by simp
    then have "writes_in ({last ext} \<union> (\<lambda>m. last (fst m)) ` set rest) w
        (snd (copy_main_files w1 P S base rest))"
      using step writes_in_trans by blast
    then show ?thesis using eq m by simp
  qed
qed

text \<open>
  One mapping of a run of the loop that raised nothing: an existing source is a file and
  its contents are at the target afterwards; with no source, what the destination names
  is what it named before.
\<close>

lemma copy_main_files_entry:
  assumes "copy_main_files w P S base fm = (None, w')"
    and "\<forall>m \<in> set fm. fst m \<noteq> [] \<and> last (fst m) \<noteq> CHR ''/'' \<and> last (fst m) \<noteq> CHR ''.''"
    and "distinct (map (\<lambda>m. last (fst m)) fm)"
    and "(ext, sd, dd) \<in> set fm"
  shows "(os_path_exists w (os_path_join P [sd, base @ ext]) \<longrightarrow>
           (\<exists>c. stat w (os_path_join P [sd, base @ ext]) = Some (File c) \<and>
                stat w' (copy_target w (os_path_join P [sd, base @ ext])
                           (os_path_join S [dd, base @ ext])) = Some (File c))) \<and>
         (\<not> os_path_exists w (os_path_join P [sd, base @ ext]) \<longrightarrow>
           stat w' (os_path_join S [dd, base @ ext]) = stat w (os_path_join S [dd, base @ ext]))"
  using assms
proof (induction fm arbitrary: w)
  case Nil
  then show ?case by simp
next
  case (Cons m rest)
  obtain e0 s0 d0 where m: "m = (e0, s0, d0)" by (cases m) auto
  let ?hsrc = "os_path_join P [s0, base @ e0]"
  let ?hdst = "os_path_join S [d0, base @ e0]"
  let ?src = "os_path_join P [sd, base @ ext]"
  let ?dst = "os_path_join S [dd, base @ ext]"
  have e0: "e0 \<noteq> []" "last e0 \<noteq> CHR ''/''" "last e0 \<noteq> CHR ''.''"
    using Cons.prems(2) m by auto
  have src0: "?hsrc \<noteq> [] \<and> last ?hsrc = last e0" using main_paths_last [OF e0(1)] .
  have dst0: "?hdst \<noteq> [] \<and> last ?hdst = last e0" using main_paths_last [OF e0(1)] .
  obtain w1 where t: "try_copy w ?hsrc ?hdst = (None, w1)"
    and r: "copy_main_files w1 P S base rest = (None, w')"
    using Cons.prems(1) m by (auto simp: copy_main_files_Cons split: option.splits)
  have step: "writes_in {last e0} w w1"
    using try_copy_writes [of ?hsrc ?hdst w] src0 dst0 e0 t by simp
  have rest_ok: "\<forall>m \<in> set rest. fst m \<noteq> [] \<and> last (fst m) \<noteq> CHR ''/'' \<and> last (fst m) \<noteq> CHR ''.''"
    using Cons.prems(2) by simp
  have rest_w: "writes_in ((\<lambda>m. last (fst m)) ` set rest) w1 w'"
    using copy_main_files_writes [OF rest_ok, of w1 P S base] r by simp
  have ext: "ext \<noteq> []" "last ext \<noteq> CHR ''/''" "last ext \<noteq> CHR ''.''"
    using Cons.prems(2,4) by force+
  have src: "?src \<noteq> [] \<and> last ?src = last ext" using main_paths_last [OF ext(1)] .
  have dst: "?dst \<noteq> [] \<and> last ?dst = last ext" using main_paths_last [OF ext(1)] .
  show ?case
  proof (cases "(ext, sd, dd) = m")
    case True
    then have same: "e0 = ext" "s0 = sd" "d0 = dd" using m by auto
    have notin: "last ext \<notin> (\<lambda>m. last (fst m)) ` set rest"
      using Cons.prems(3) m same by auto
    let ?t = "copy_target w ?src ?dst"
    have tl: "?t \<noteq> [] \<and> last ?t = last ext"
      using copy_target_last [of ?src ?dst w] src dst ext by simp
    have keep_t: "stat w' ?t = stat w1 ?t"
      using stat_writes_in [OF rest_w, of ?t] tl ext notin by simp
    have keep_d: "stat w' ?dst = stat w1 ?dst"
      using stat_writes_in [OF rest_w, of ?dst] dst ext notin by simp
    show ?thesis
      using try_copy_success [OF t] same keep_t keep_d by auto
  next
    case False
    then have mem: "(ext, sd, dd) \<in> set rest" using Cons.prems(4) by auto
    then have ne: "last ext \<noteq> last e0"
      using Cons.prems(3) m by force
    have dist: "distinct (map (\<lambda>m. last (fst m)) rest)" using Cons.prems(3) by simp
    note IH = Cons.IH [OF r rest_ok dist mem]
    have s1: "stat w1 ?src = stat w ?src"
      using stat_writes_in [OF step, of ?src] src ext ne by simp
    have d1: "stat w1 ?dst = stat w ?dst"
      using stat_writes_in [OF step, of ?dst] dst ext ne by simp
    have t1: "copy_target w1 ?src ?dst = copy_target w ?src ?dst"
      using copy_target_same_dirs [OF writes_in_same_dirs [OF step]] .
    show ?thesis
      using IH s1 d1 t1 by (simp add: os_path_exists_stat)
  qed
qed

section \<open>The copy of the sequence files and the metadata\<close>

lemma endswith_seq_last:
  assumes "endswith e ''.seq''"
  shows "e \<noteq> [] \<and> last e = CHR ''q''"
proof -
  define x where "x = ''.seq''"
  have x: "length x = 4" "last x = CHR ''q''" by (simp_all add: x_def)
  have a: "length x \<le> length e" and d: "drop (length e - length x) e = x"
    using assms unfolding endswith_def x_def by blast+
  have ne: "e \<noteq> []" using a x by auto
  have "length e - length x < length e" using a x by simp
  then have "last (drop (length e - length x) e) = last e" by (rule last_drop)
  then have "last e = last x" using d by simp
  then show ?thesis using ne x by simp
qed

declare copy_seq_loop.simps [simp del]

lemma copy_seq_loop_writes:
  "writes_in {CHR ''q''} w (snd (copy_seq_loop w psd dsd base es))"
proof (induction es arbitrary: w)
  case Nil
  then show ?case by (simp add: copy_seq_loop.simps)
next
  case (Cons e es)
  define c where "c = (startswith e base \<and> endswith e ''.seq'')"
  have unf: "copy_seq_loop w psd dsd base (e # es) =
      (if c then
         (case try_copy w (os_path_join psd [e]) (os_path_join dsd [e]) of
            (Some x, w') \<Rightarrow> (Some x, w')
          | (None, w') \<Rightarrow> copy_seq_loop w' psd dsd base es)
       else copy_seq_loop w psd dsd base es)"
    unfolding c_def by (rule copy_seq_loop.simps)
  show ?case
  proof (cases c)
    case False
    then show ?thesis using Cons.IH [of w] unf by simp
  next
    case True
    then have e: "e \<noteq> [] \<and> last e = CHR ''q''" using endswith_seq_last c_def by simp
    define src where "src = os_path_join psd [e]"
    define dst where "dst = os_path_join dsd [e]"
    have src: "src \<noteq> [] \<and> last src = CHR ''q''"
      using os_path_join_last [of "[e]" psd] e by (simp add: src_def)
    have dst: "dst \<noteq> [] \<and> last dst = CHR ''q''"
      using os_path_join_last [of "[e]" dsd] e by (simp add: dst_def)
    obtain r1 w1 where t: "try_copy w src dst = (r1, w1)" by (cases "try_copy w src dst") auto
    have step: "writes_in {CHR ''q''} w w1"
      using try_copy_writes [of src dst w] src dst t by simp
    show ?thesis
    proof (cases r1)
      case (Some a)
      then have "snd (copy_seq_loop w psd dsd base (e # es)) = w1"
        using True t unf by (simp add: src_def dst_def)
      then show ?thesis using step by simp
    next
      case None
      then have "snd (copy_seq_loop w psd dsd base (e # es)) = snd (copy_seq_loop w1 psd dsd base es)"
        using True t unf by (simp add: src_def dst_def)
      moreover have "writes_in ({CHR ''q''} \<union> {CHR ''q''}) w (snd (copy_seq_loop w1 psd dsd base es))"
        using writes_in_trans [OF step Cons.IH [of w1]] .
      ultimately show ?thesis by simp
    qed
  qed
qed

lemma copy_seq_files_writes:
  "writes_in {CHR ''q''} w (snd (copy_seq_files w P S base))"
proof (cases "os_path_exists w (os_path_join P [''seq''])")
  case False
  then show ?thesis by (simp add: copy_seq_files_def)
next
  case True
  show ?thesis
  proof (cases "os_listdir w (os_path_join P [''seq''])")
    case (Inl e)
    then show ?thesis using True by (simp add: copy_seq_files_def)
  next
    case (Inr es)
    then show ?thesis
      using True copy_seq_loop_writes [of w "os_path_join P [''seq'']" "os_path_join S [''seq'']" base es]
      by (simp add: copy_seq_files_def)
  qed
qed

lemma save_metadata_writes:
  assumes "p \<noteq> []" "last p \<noteq> CHR ''/''" "last p \<noteq> CHR ''.''"
  shows "writes_in {last p} w (snd (save_metadata w p m))"
proof (cases "json_ok m")
  case True
  then show ?thesis using write_file_writes [OF assms, of w "Json m"] by (simp add: save_metadata_def)
next
  case False
  obtain r w1 where wf: "write_file w p (JsonTruncated m) = (r, w1)"
    by (cases "write_file w p (JsonTruncated m)") auto
  then have "snd (save_metadata w p m) = w1"
    using False by (cases r) (simp_all add: save_metadata_def)
  then show ?thesis using write_file_writes [OF assms, of w "JsonTruncated m"] wf by simp
qed

lemma save_metadata_success:
  assumes "save_metadata w p m = (None, w')"
  shows "json_ok m \<and> stat w' p = Some (File (Json m))"
proof (cases "json_ok m")
  case True
  then have "write_file w p (Json m) = (None, w')" using assms by (simp add: save_metadata_def)
  then show ?thesis using True write_file_stat by simp
next
  case False
  obtain r w1 where wf: "write_file w p (JsonTruncated m) = (r, w1)"
    by (cases "write_file w p (JsonTruncated m)") auto
  then have "fst (save_metadata w p m) \<noteq> None"
    using False by (cases r) (simp_all add: save_metadata_def)
  then show ?thesis using assms by simp
qed

lemma save_metadata_unrenderable:
  assumes "\<not> json_ok m"
  shows "fst (save_metadata w p m) \<noteq> None \<and>
         (snd (save_metadata w p m) = w \<or>
          stat (snd (save_metadata w p m)) p = Some (File (JsonTruncated m)))"
proof -
  obtain r w1 where wf: "write_file w p (JsonTruncated m) = (r, w1)"
    by (cases "write_file w p (JsonTruncated m)") auto
  show ?thesis
  proof (cases r)
    case None
    then show ?thesis using assms wf write_file_stat [of w p "JsonTruncated m" w1]
      by (simp add: save_metadata_def)
  next
    case (Some e)
    then show ?thesis using assms wf write_file_failure [of w p "JsonTruncated m" e w1]
      by (simp add: save_metadata_def)
  qed
qed

section \<open>Making directories\<close>

lemma dirs_along_mono:
  assumes "\<And>q. is_dir w q \<Longrightarrow> is_dir w' q"
  shows "dirs_along w cur cs \<Longrightarrow> dirs_along w' cur cs"
  by (induction cs arbitrary: cur) (auto simp: assms)

lemma makedirs_walk_grow: "dirs_grow w (snd (makedirs_walk w cur cs))"
proof (induction cs arbitrary: w cur)
  case Nil
  then show ?case by simp
next
  case (Cons c cs)
  show ?case
  proof (cases "c = [] \<or> c = ''.''")
    case True
    then show ?thesis using Cons.IH [of w cur] by auto
  next
    case False
    show ?thesis
    proof (cases "c = ''..''")
      case True
      then show ?thesis using Cons.IH [of w "butlast cur"] by simp
    next
      case n: False
      show ?thesis
      proof (cases "node_at w (cur @ [c])")
        case None
        have "dirs_grow w (put_node w (cur @ [c]) Dir)" using None by (rule dirs_grow_put_dir)
        then have "dirs_grow w (snd (makedirs_walk (put_node w (cur @ [c]) Dir) (cur @ [c]) cs))"
          using Cons.IH dirs_grow_trans by blast
        then show ?thesis using False n None by simp
      next
        case (Some nd)
        then show ?thesis using False n Cons.IH [of w "cur @ [c]"] by (cases nd) simp_all
      qed
    qed
  qed
qed

lemma makedirs_walk_made:
  assumes "makedirs_walk w cur cs = (None, w')"
  shows "dirs_along w' cur cs"
  using assms
proof (induction cs arbitrary: w cur)
  case Nil
  then show ?case by simp
next
  case (Cons c cs)
  show ?case
  proof (cases "c = [] \<or> c = ''.''")
    case True
    then show ?thesis using Cons by auto
  next
    case False
    show ?thesis
    proof (cases "c = ''..''")
      case True
      then show ?thesis using Cons by simp
    next
      case n: False
      show ?thesis
      proof (cases "node_at w (cur @ [c])")
        case None
        let ?w = "put_node w (cur @ [c]) Dir"
        have r: "makedirs_walk ?w (cur @ [c]) cs = (None, w')"
          using Cons.prems False n None by simp
        have "is_dir ?w (cur @ [c])" by (simp add: is_dir_put_dir)
        moreover have "dirs_grow ?w w'" using makedirs_walk_grow [of ?w "cur @ [c]" cs] r by simp
        ultimately have "is_dir w' (cur @ [c])" by (rule_tac dirs_grow_is_dir)
        then show ?thesis using Cons.IH [OF r] False n by simp
      next
        case (Some nd)
        then have nd: "nd = Dir" using Cons.prems False n by (cases nd) simp_all
        have r: "makedirs_walk w (cur @ [c]) cs = (None, w')"
          using Cons.prems False n Some nd by simp
        have "is_dir w (cur @ [c])" using Some nd by (simp add: is_dir_def)
        moreover have "dirs_grow w w'" using makedirs_walk_grow [of w "cur @ [c]" cs] r by simp
        ultimately have "is_dir w' (cur @ [c])" by (rule_tac dirs_grow_is_dir)
        then show ?thesis using Cons.IH [OF r] False n by simp
      qed
    qed
  qed
qed

lemma makedirs_walk_idle:
  assumes "dirs_along w cur cs"
  shows "makedirs_walk w cur cs = (None, w)"
  using assms
  by (induction cs arbitrary: cur) (auto simp: is_dir_def)

text \<open>All the directories that the scaffolding makes are there.\<close>

lemma os_makedirs_grow: "dirs_grow w (snd (os_makedirs w p))"
  using makedirs_walk_grow [of w "start_dir w p" "split_on (CHR ''/'') p"]
  by (simp add: os_makedirs_def)

lemma start_dir_cwd: "cwd w' = cwd w \<Longrightarrow> start_dir w' p = start_dir w p"
  by (simp add: start_dir_def)

lemma os_makedirs_idle:
  assumes "p \<noteq> []" "is_dir w (start_dir w p)"
    and "dirs_along w (start_dir w p) (split_on (CHR ''/'') p)"
  shows "os_makedirs w p = (None, w)"
  using assms makedirs_walk_idle by (simp add: os_makedirs_def)

lemma os_makedirs_made:
  assumes "os_makedirs w p = (None, w')"
  shows "p \<noteq> [] \<and> is_dir w' (start_dir w' p) \<and>
         dirs_along w' (start_dir w' p) (split_on (CHR ''/'') p)"
proof -
  have c: "p \<noteq> [] \<and> is_dir w (start_dir w p)"
  proof (rule ccontr)
    assume "\<not> (p \<noteq> [] \<and> is_dir w (start_dir w p))"
    then have "os_makedirs w p = (Some OSError, w)" unfolding os_makedirs_def by simp
    then show False using assms by simp
  qed
  then have p: "p \<noteq> []" "is_dir w (start_dir w p)" by simp_all
  have r: "makedirs_walk w (start_dir w p) (split_on (CHR ''/'') p) = (None, w')"
    using assms c unfolding os_makedirs_def by simp
  have g: "dirs_grow w w'" using os_makedirs_grow [of w p] assms by simp
  then have s: "start_dir w' p = start_dir w p" by (simp add: start_dir_def dirs_grow_def)
  show ?thesis
    using p s makedirs_walk_made [OF r] dirs_grow_is_dir [OF g p(2)] by simp
qed

declare make_subfolders.simps [simp del]

lemma make_subfolders_Nil [simp]: "make_subfolders w S [] = (None, w)"
  by (simp add: make_subfolders.simps)

lemma make_subfolders_Cons:
  "make_subfolders w S (sub # rest) =
     (case os_makedirs w (os_path_join S [sub]) of
        (Some e, w') \<Rightarrow> (Some e, w')
      | (None, w') \<Rightarrow> make_subfolders w' S rest)"
  by (simp add: make_subfolders.simps)

lemma make_subfolders_grow: "dirs_grow w (snd (make_subfolders w S subs))"
proof (induction subs arbitrary: w)
  case Nil
  then show ?case by simp
next
  case (Cons sub rest)
  obtain r w1 where m: "os_makedirs w (os_path_join S [sub]) = (r, w1)"
    by (cases "os_makedirs w (os_path_join S [sub])") auto
  have g: "dirs_grow w w1" using os_makedirs_grow [of w "os_path_join S [sub]"] m by simp
  show ?case
  proof (cases r)
    case None
    then have "snd (make_subfolders w S (sub # rest)) = snd (make_subfolders w1 S rest)"
      using m by (simp add: make_subfolders_Cons)
    then show ?thesis using dirs_grow_trans [OF g Cons.IH [of w1]] by simp
  next
    case (Some e)
    then show ?thesis using m g by (simp add: make_subfolders_Cons)
  qed
qed

lemma make_subfolders_idle:
  assumes "\<forall>sub \<in> set subs. os_makedirs w (os_path_join S [sub]) = (None, w)"
  shows "make_subfolders w S subs = (None, w)"
  using assms by (induction subs) (simp_all add: make_subfolders_Cons)

text \<open>
  After a scaffolding that raised nothing, in any filesystem that still has its
  directories, making one of the subfolders again changes nothing.
\<close>

lemma make_subfolders_again:
  assumes "make_subfolders w S subs = (None, w1)" "sub \<in> set subs"
    and "cwd w2 = cwd w1" "\<And>q. is_dir w1 q \<Longrightarrow> is_dir w2 q"
  shows "os_makedirs w2 (os_path_join S [sub]) = (None, w2)"
  using assms(1,2)
proof (induction subs arbitrary: w)
  case Nil
  then show ?case by simp
next
  case (Cons a rest)
  obtain wa where m: "os_makedirs w (os_path_join S [a]) = (None, wa)"
    and r: "make_subfolders wa S rest = (None, w1)"
    using Cons.prems(1)
    by (cases "os_makedirs w (os_path_join S [a])"; cases "fst (os_makedirs w (os_path_join S [a]))")
       (auto simp: make_subfolders_Cons)
  show ?case
  proof (cases "sub = a")
    case True
    let ?p = "os_path_join S [sub]"
    have made: "?p \<noteq> [] \<and> is_dir wa (start_dir wa ?p) \<and>
        dirs_along wa (start_dir wa ?p) (split_on (CHR ''/'') ?p)"
      using os_makedirs_made m True by simp
    have g: "dirs_grow wa w1" using make_subfolders_grow [of wa S rest] r by simp
    have up: "\<And>q. is_dir wa q \<Longrightarrow> is_dir w2 q"
      using dirs_grow_is_dir [OF g] assms(4) by blast
    have s: "start_dir w2 ?p = start_dir wa ?p"
      using g assms(3) by (simp add: start_dir_def dirs_grow_def)
    have "dirs_along w2 (start_dir wa ?p) (split_on (CHR ''/'') ?p)"
      using dirs_along_mono [of wa w2] up made by blast
    then show ?thesis
      using os_makedirs_idle [of ?p w2] made s up by simp
  next
    case False
    then show ?thesis using Cons.IH [OF r] Cons.prems(2) by simp
  qed
qed

section \<open>The stages of a call\<close>

lemma try_body_success:
  assumes "try_body w si sc P = (Inr p, w')"
  shows "\<exists>lab ses w1 base w2 w3.
           subject_label_of si = Inr lab \<and> session_label_of sc = Inr ses \<and>
           p = os_path_join dataset_root [''sub-'' @ lab, ses] \<and>
           make_subfolders w p subfolders = (None, w1) \<and>
           base_filename_of sc = Inr base \<and>
           copy_main_files w1 P p base file_map = (None, w2) \<and>
           copy_seq_files w2 P p base = (None, w3) \<and>
           save_metadata w3 (os_path_join p [''metadata.json'']) (full_metadata si sc) = (None, w')"
proof -
  note a = assms [unfolded try_body_def Let_def]
  obtain lab where lab: "subject_label_of si = Inr lab"
    using a by (cases "subject_label_of si") auto
  obtain ses where ses: "session_label_of sc = Inr ses"
    using a lab by (cases "session_label_of sc") auto
  define S where "S = os_path_join dataset_root [''sub-'' @ lab, ses]"
  obtain r1 w1 where m: "make_subfolders w S subfolders = (r1, w1)"
    by (cases "make_subfolders w S subfolders") auto
  have r1: "r1 = None"
    using a lab ses m unfolding S_def by (cases r1) auto
  obtain base where base: "base_filename_of sc = Inr base"
    using a lab ses m r1 unfolding S_def by (cases "base_filename_of sc") auto
  obtain r2 w2 where c: "copy_main_files w1 P S base file_map = (r2, w2)"
    by (cases "copy_main_files w1 P S base file_map") auto
  have r2: "r2 = None"
    using a lab ses m r1 base c unfolding S_def by (cases r2) auto
  obtain r3 w3 where q: "copy_seq_files w2 P S base = (r3, w3)"
    by (cases "copy_seq_files w2 P S base") auto
  have r3: "r3 = None"
    using a lab ses m r1 base c r2 q unfolding S_def by (cases r3) auto
  obtain r4 w4 where sv: "save_metadata w3 (os_path_join S [''metadata.json''])
      (full_metadata si sc) = (r4, w4)"
    by (cases "save_metadata w3 (os_path_join S [''metadata.json'']) (full_metadata si sc)") auto
  have r4: "r4 = None \<and> p = S \<and> w' = w4"
    using a lab ses m r1 base c r2 q r3 sv unfolding S_def by (cases r4) auto
  show ?thesis
    using lab ses m r1 base c r2 q r3 sv r4 unfolding S_def by auto
qed

lemma create_success:
  "createMirroredDataset w si sc P = (Some p, w') \<longleftrightarrow> try_body w si sc P = (Inr p, w')"
  unfolding createMirroredDataset_def by (auto split: sum.splits prod.splits)

lemma create_fst_success:
  "fst (createMirroredDataset w si sc P) = Some p \<longleftrightarrow> fst (try_body w si sc P) = Inr p"
  unfolding createMirroredDataset_def by (auto split: sum.splits prod.splits)

lemma create_fst_failure:
  "fst (createMirroredDataset w si sc P) = None \<longleftrightarrow> (\<exists>e. fst (try_body w si sc P) = Inl e)"
  unfolding createMirroredDataset_def by (auto split: sum.splits prod.splits)

lemma try_body_subject:
  "subject_label_of si = Inl e \<Longrightarrow> try_body w si sc P = (Inl e, w)"
  unfolding try_body_def by simp

lemma try_body_session:
  "subject_label_of si = Inr lab \<Longrightarrow> session_label_of sc = Inl e \<Longrightarrow>
   try_body w si sc P = (Inl e, w)"
  unfolding try_body_def by simp

lemma try_body_scaffold:
  "subject_label_of si = Inr lab \<Longrightarrow> session_label_of sc = Inr ses \<Longrightarrow>
   make_subfolders w (os_path_join dataset_root [''sub-'' @ lab, ses]) subfolders = (Some e, w1) \<Longrightarrow>
   try_body w si sc P = (Inl e, w1)"
  unfolding try_body_def by simp

lemma try_body_base:
  "subject_label_of si = Inr lab \<Longrightarrow> session_label_of sc = Inr ses \<Longrightarrow>
   make_subfolders w (os_path_join dataset_root [''sub-'' @ lab, ses]) subfolders = (None, w1) \<Longrightarrow>
   base_filename_of sc = Inl e \<Longrightarrow>
   try_body w si sc P = (Inl e, w1)"
  unfolding try_body_def by simp

lemma try_body_main:
  "subject_label_of si = Inr lab \<Longrightarrow> session_label_of sc = Inr ses \<Longrightarrow>
   S = os_path_join dataset_root [''sub-'' @ lab, ses] \<Longrightarrow>
   make_subfolders w S subfolders = (None, w1) \<Longrightarrow>
   base_filename_of sc = Inr base \<Longrightarrow>
   copy_main_files w1 P S base file_map = (Some e, w2) \<Longrightarrow>
   try_body w si sc P = (Inl e, w2)"
  unfolding try_body_def by simp

lemma try_body_seq:
  "subject_label_of si = Inr lab \<Longrightarrow> session_label_of sc = Inr ses \<Longrightarrow>
   S = os_path_join dataset_root [''sub-'' @ lab, ses] \<Longrightarrow>
   make_subfolders w S subfolders = (None, w1) \<Longrightarrow>
   base_filename_of sc = Inr base \<Longrightarrow>
   copy_main_files w1 P S base file_map = (None, w2) \<Longrightarrow>
   copy_seq_files w2 P S base = (Some e, w3) \<Longrightarrow>
   try_body w si sc P = (Inl e, w3)"
  unfolding try_body_def by simp

lemma try_body_metadata:
  "subject_label_of si = Inr lab \<Longrightarrow> session_label_of sc = Inr ses \<Longrightarrow>
   S = os_path_join dataset_root [''sub-'' @ lab, ses] \<Longrightarrow>
   make_subfolders w S subfolders = (None, w1) \<Longrightarrow>
   base_filename_of sc = Inr base \<Longrightarrow>
   copy_main_files w1 P S base file_map = (None, w2) \<Longrightarrow>
   copy_seq_files w2 P S base = (None, w3) \<Longrightarrow>
   save_metadata w3 (os_path_join S [''metadata.json'']) (full_metadata si sc) = (r, w4) \<Longrightarrow>
   try_body w si sc P = ((case r of Some e \<Rightarrow> Inl e | None \<Rightarrow> Inr S), w4)"
  unfolding try_body_def by (cases r) simp_all

lemma create_of_try_body:
  "createMirroredDataset w si sc P =
     ((case fst (try_body w si sc P) of Inl e \<Rightarrow> None | Inr p \<Rightarrow> Some p),
      snd (try_body w si sc P))"
  unfolding createMirroredDataset_def
  by (cases "try_body w si sc P"; cases "fst (try_body w si sc P)") auto

lemma subject_fails:
  "subject_label_of si = Inl e \<Longrightarrow> createMirroredDataset w si sc P = (None, w)"
  by (simp add: create_of_try_body try_body_subject)

lemma session_fails:
  assumes "session_label_of sc = Inl e"
  shows "createMirroredDataset w si sc P = (None, w)"
proof (cases "subject_label_of si")
  case (Inl a)
  then show ?thesis by (rule subject_fails)
next
  case (Inr lab)
  then show ?thesis using assms by (simp add: create_of_try_body try_body_session)
qed

lemma base_fails_world:
  assumes "subject_label_of si = Inr lab" "session_label_of sc = Inr ses"
    and "base_filename_of sc = Inl e"
  shows "createMirroredDataset w si sc P =
           (None, snd (make_subfolders w (os_path_join dataset_root [''sub-'' @ lab, ses]) subfolders))"
proof -
  let ?S = "os_path_join dataset_root [''sub-'' @ lab, ses]"
  obtain r w1 where m: "make_subfolders w ?S subfolders = (r, w1)"
    by (cases "make_subfolders w ?S subfolders") auto
  show ?thesis
  proof (cases r)
    case None
    then show ?thesis
      using assms m by (simp add: create_of_try_body try_body_base)
  next
    case (Some a)
    then show ?thesis
      using assms m by (simp add: create_of_try_body try_body_scaffold)
  qed
qed

lemma base_fails:
  assumes "base_filename_of sc = Inl e"
  shows "fst (createMirroredDataset w si sc P) = None"
proof (cases "subject_label_of si")
  case (Inl a)
  then show ?thesis by (simp add: subject_fails)
next
  case lab: (Inr lab)
  show ?thesis
  proof (cases "session_label_of sc")
    case (Inl a)
    then show ?thesis by (simp add: session_fails)
  next
    case (Inr ses)
    then show ?thesis using lab assms by (simp add: base_fails_world)
  qed
qed

lemma subject_label_cases:
  assumes "subject_label_of si = Inr lab"
  shows "(map_of si ''subject_id'' = None \<and> lab = ''UnknownSubject'') \<or>
         (\<exists>s. map_of si ''subject_id'' = Some (PStr s) \<and> lab = str_replace (CHR '' '') (CHR ''_'') s)"
  using assms unfolding subject_label_of_def dict_get_def
  by (auto simp: str_replace_def split: option.splits pyval.splits)

lemma session_label_cases:
  assumes "session_label_of sc = Inr ses"
  shows "\<exists>s dt. map_of sc ''name_string'' = Some (PStr s) \<and> strptime s = Some dt \<and>
           ses = ''ses-'' @ strftime dt"
  using assms unfolding session_label_of_def dict_get_def Let_def
  by (auto split: option.splits pyval.splits sum.splits if_splits)

lemma session_label_parsed:
  assumes "map_of sc ''name_string'' = Some (PStr s)" "strptime s = Some dt"
  shows "session_label_of sc = Inr (''ses-'' @ strftime dt)"
proof -
  have "strptime [] = None" by (simp add: strptime_def)
  then have "s \<noteq> []" using assms(2) by auto
  then show ?thesis using assms unfolding session_label_of_def dict_get_def Let_def by simp
qed

lemma session_label_unparsed:
  assumes "map_of sc ''name_string'' = Some (PStr s)" "strptime s = None"
  shows "session_label_of sc = Inl ValueError"
  using assms unfolding session_label_of_def dict_get_def Let_def by simp

lemma session_label_absent:
  assumes "map_of sc ''name_string'' = None"
  shows "session_label_of sc = Inl ValueError"
  using assms unfolding session_label_of_def dict_get_def Let_def by simp

lemma base_filename_absent:
  assumes "map_of sc ''fileName'' = None"
  shows "base_filename_of sc = Inl ValueError"
  using assms unfolding base_filename_of_def dict_get_def Let_def
  by (simp add: os_path_splitext_def rfind_def)

lemma base_filename_empty_stem:
  assumes "map_of sc ''fileName'' = Some (PStr f)" "fst (os_path_splitext f) = []"
  shows "base_filename_of sc = Inl ValueError"
  using assms unfolding base_filename_of_def dict_get_def Let_def by simp

section \<open>The filesystem after a call\<close>

lemma file_map_ok:
  "\<forall>m \<in> set file_map. fst m \<noteq> [] \<and> last (fst m) \<noteq> CHR ''/'' \<and> last (fst m) \<noteq> CHR ''.''"
  by (simp add: file_map_def)

lemma file_map_distinct: "distinct (map (\<lambda>m. last (fst m)) file_map)"
  by (simp add: file_map_def)

lemma file_map_last:
  assumes "(ext, sd, dd) \<in> set file_map"
  shows "ext \<noteq> [] \<and> last ext \<noteq> CHR ''/'' \<and> last ext \<noteq> CHR ''.'' \<and>
         last ext \<noteq> CHR ''q'' \<and> last ext \<noteq> CHR ''n''"
  using assms by (auto simp: file_map_def)

lemma metadata_path_last:
  "os_path_join S [''metadata.json''] \<noteq> [] \<and> last (os_path_join S [''metadata.json'']) = CHR ''n''"
  using os_path_join_last [of "[''metadata.json'']" S] by simp

lemma save_metadata_writes_n:
  "writes_in {CHR ''n''} w (snd (save_metadata w (os_path_join S [''metadata.json'']) m))"
  using save_metadata_writes [of "os_path_join S [''metadata.json'']" w m] metadata_path_last [of S]
  by simp

text \<open>After the copy of the main files, only names that end in \<open>q\<close> or \<open>n\<close> are written.\<close>

lemma after_main_files:
  assumes "copy_seq_files w2 P S base = (r3, w3)"
    and "save_metadata w3 (os_path_join S [''metadata.json'']) m = (r4, w4)"
  shows "writes_in {CHR ''q'', CHR ''n''} w2 w4"
proof -
  have a: "writes_in {CHR ''q''} w2 w3" using copy_seq_files_writes [of w2 P S base] assms(1) by simp
  have b: "writes_in {CHR ''n''} w3 w4" using save_metadata_writes_n [of w3 S m] assms(2) by simp
  have "writes_in ({CHR ''q''} \<union> {CHR ''n''}) w2 w4" using writes_in_trans [OF a b] .
  then show ?thesis by (simp add: insert_commute)
qed

lemma json_ok_full_metadata: "json_ok (full_metadata si sc) \<Longrightarrow> json_ok (PDict si)"
  by (simp add: full_metadata_def)

lemma scan_parameters_strings:
  "list_all (\<lambda>kv. \<exists>s. snd kv = PStr s) (scan_parameters sc) \<and> json_ok (PDict (scan_parameters sc))"
  by (induction sc) (simp_all add: scan_parameters_def)

lemma scan_parameters_keys: "map fst (scan_parameters sc) = map fst sc"
  by (simp add: scan_parameters_def comp_def)

lemma scan_parameters_lookup:
  "map_of (scan_parameters sc) k = map_option (\<lambda>v. PStr (py_str v)) (map_of sc k)"
  by (induction sc) (auto simp: scan_parameters_def)

section \<open>The claims\<close>

text \<open>
  C1. A call that returns a path returns the dataset root joined with \<open>sub-\<close> followed by
  the subject identifier with every space replaced by an underscore (\<open>UnknownSubject\<close>
  when \<open>subject_id\<close> is absent), and with \<open>ses-\<close> followed by the compact timestamp of
  \<open>name_string\<close>.
\<close>

theorem returned_path:
  assumes "fst (createMirroredDataset w session_info scan_info primary_save_path) = Some path"
  shows "\<exists>name dt. map_of scan_info ''name_string'' = Some (PStr name) \<and> strptime name = Some dt \<and>
           ((map_of session_info ''subject_id'' = None \<and>
             path = os_path_join dataset_root [''sub-UnknownSubject'', ''ses-'' @ strftime dt]) \<or>
            (\<exists>subject_id. map_of session_info ''subject_id'' = Some (PStr subject_id) \<and>
               path = os_path_join dataset_root
                        [''sub-'' @ str_replace (CHR '' '') (CHR ''_'') subject_id,
                         ''ses-'' @ strftime dt]))"
proof -
  have "fst (try_body w session_info scan_info primary_save_path) = Inr path"
    using assms by (simp add: create_fst_success)
  then obtain w' where "try_body w session_info scan_info primary_save_path = (Inr path, w')"
    by (cases "try_body w session_info scan_info primary_save_path") auto
  then obtain lab ses where l: "subject_label_of session_info = Inr lab"
    and s: "session_label_of scan_info = Inr ses"
    and p: "path = os_path_join dataset_root [''sub-'' @ lab, ses]"
    using try_body_success by blast
  obtain name dt where n: "map_of scan_info ''name_string'' = Some (PStr name)"
    "strptime name = Some dt" "ses = ''ses-'' @ strftime dt"
    using session_label_cases [OF s] by blast
  have u: "''sub-'' @ ''UnknownSubject'' = ''sub-UnknownSubject''" by simp
  from subject_label_cases [OF l] show ?thesis
  proof
    assume "map_of session_info ''subject_id'' = None \<and> lab = ''UnknownSubject''"
    then have "map_of session_info ''subject_id'' = None \<and>
        path = os_path_join dataset_root [''sub-UnknownSubject'', ''ses-'' @ strftime dt]"
      using p n(3) u by simp
    then show ?thesis using n(1,2) by blast
  next
    assume "\<exists>s. map_of session_info ''subject_id'' = Some (PStr s) \<and>
        lab = str_replace (CHR '' '') (CHR ''_'') s"
    then obtain s where "map_of session_info ''subject_id'' = Some (PStr s)"
      "path = os_path_join dataset_root
          [''sub-'' @ str_replace (CHR '' '') (CHR ''_'') s, ''ses-'' @ strftime dt]"
      using p n(3) by auto
    then show ?thesis using n(1,2) by blast
  qed
qed

text \<open>
  C2. When a step of the body raises, the call returns \<open>None\<close>; when no step raises, it
  returns the path of the session directory.
\<close>

theorem exceptions_are_caught:
  "(\<forall>e. fst (try_body w session_info scan_info primary_save_path) = Inl e \<longrightarrow>
      fst (createMirroredDataset w session_info scan_info primary_save_path) = None) \<and>
   (\<forall>path. fst (try_body w session_info scan_info primary_save_path) = Inr path \<longrightarrow>
      fst (createMirroredDataset w session_info scan_info primary_save_path) = Some path \<and>
      (\<exists>subject_label session_label.
         subject_label_of session_info = Inr subject_label \<and>
         session_label_of scan_info = Inr session_label \<and>
         path = os_path_join dataset_root [''sub-'' @ subject_label, session_label]))"
proof (intro conjI allI impI)
  fix e assume "fst (try_body w session_info scan_info primary_save_path) = Inl e"
  then show "fst (createMirroredDataset w session_info scan_info primary_save_path) = None"
    by (simp add: create_of_try_body)
next
  fix path assume a: "fst (try_body w session_info scan_info primary_save_path) = Inr path"
  then show "fst (createMirroredDataset w session_info scan_info primary_save_path) = Some path"
    by (simp add: create_of_try_body)
next
  fix path assume a: "fst (try_body w session_info scan_info primary_save_path) = Inr path"
  then obtain w' where "try_body w session_info scan_info primary_save_path = (Inr path, w')"
    by (cases "try_body w session_info scan_info primary_save_path") auto
  then show "\<exists>subject_label session_label.
         subject_label_of session_info = Inr subject_label \<and>
         session_label_of scan_info = Inr session_label \<and>
         path = os_path_join dataset_root [''sub-'' @ subject_label, session_label]"
    using try_body_success by blast
qed

text \<open>
  C3. When \<open>name_string\<close> is absent or empty, or \<open>fileName\<close> is absent or has an empty
  stem, the call returns \<open>None\<close>.
\<close>

theorem required_fields:
  assumes "map_of scan_info ''name_string'' = None \<or>
           map_of scan_info ''name_string'' = Some (PStr []) \<or>
           map_of scan_info ''fileName'' = None \<or>
           (\<exists>f. map_of scan_info ''fileName'' = Some (PStr f) \<and> fst (os_path_splitext f) = [])"
  shows "fst (createMirroredDataset w session_info scan_info primary_save_path) = None"
  using assms
proof (elim disjE exE conjE)
  assume "map_of scan_info ''name_string'' = None"
  then show ?thesis using session_fails [OF session_label_absent] by simp
next
  assume a: "map_of scan_info ''name_string'' = Some (PStr [])"
  have "strptime [] = None" by (simp add: strptime_def)
  then show ?thesis using session_fails [OF session_label_unparsed [OF a]] by simp
next
  assume "map_of scan_info ''fileName'' = None"
  then show ?thesis using base_fails [OF base_filename_absent] by simp
next
  fix f assume "map_of scan_info ''fileName'' = Some (PStr f)" "fst (os_path_splitext f) = []"
  then show ?thesis using base_fails [OF base_filename_empty_stem] by simp
qed

theorem required_fields_witness:
  "fst (createMirroredDataset ex_world ex_session [(''fileName'', PStr ''X1.mat'')] ''acq'') = None \<and>
   fst (createMirroredDataset ex_world ex_session
          [(''name_string'', PStr ''2024.03.15.09.30.00.123456'')] ''acq'') = None"
  using required_fields [of "[(''fileName'', PStr ''X1.mat'')]" ex_world ex_session "''acq''"]
    required_fields [of "[(''name_string'', PStr ''2024.03.15.09.30.00.123456'')]"
      ex_world ex_session "''acq''"]
  by simp

end
